theory Spec2Isabelle
  imports Complex_Main "HOL-Library.Monad_Syntax" "HOL-Library.Sublist"
begin

section \<open>Event codes\<close>

text \<open>
  The numeric event types and codes of \<^verbatim>\<open>linux/input-event-codes.h\<close>, the
  kernel header that \<^verbatim>\<open>joy2keymouse.c\<close> reaches through libevdev. They are
  abbreviations of numerals, so that the case labels of the source's
  \<^verbatim>\<open>switch\<close> statements are distinct by computation. \<^verbatim>\<open>BTN_A\<close> is the
  header's second name for \<^verbatim>\<open>BTN_SOUTH\<close>.
\<close>

abbreviation (input) EV_SYN :: nat where "EV_SYN \<equiv> 0"
abbreviation (input) EV_KEY :: nat where "EV_KEY \<equiv> 1"
abbreviation (input) EV_REL :: nat where "EV_REL \<equiv> 2"
abbreviation (input) EV_ABS :: nat where "EV_ABS \<equiv> 3"

abbreviation (input) SYN_REPORT :: nat where "SYN_REPORT \<equiv> 0"

abbreviation (input) REL_X :: nat where "REL_X \<equiv> 0"
abbreviation (input) REL_Y :: nat where "REL_Y \<equiv> 1"
abbreviation (input) REL_WHEEL_HI_RES :: nat where "REL_WHEEL_HI_RES \<equiv> 11"
abbreviation (input) REL_HWHEEL_HI_RES :: nat where "REL_HWHEEL_HI_RES \<equiv> 12"

abbreviation (input) ABS_X :: nat where "ABS_X \<equiv> 0"
abbreviation (input) ABS_Y :: nat where "ABS_Y \<equiv> 1"
abbreviation (input) ABS_Z :: nat where "ABS_Z \<equiv> 2"
abbreviation (input) ABS_RX :: nat where "ABS_RX \<equiv> 3"
abbreviation (input) ABS_RY :: nat where "ABS_RY \<equiv> 4"
abbreviation (input) ABS_RZ :: nat where "ABS_RZ \<equiv> 5"
abbreviation (input) ABS_HAT0X :: nat where "ABS_HAT0X \<equiv> 16"
abbreviation (input) ABS_HAT0Y :: nat where "ABS_HAT0Y \<equiv> 17"

abbreviation (input) KEY_TAB :: nat where "KEY_TAB \<equiv> 15"
abbreviation (input) KEY_ENTER :: nat where "KEY_ENTER \<equiv> 28"
abbreviation (input) KEY_LEFTCTRL :: nat where "KEY_LEFTCTRL \<equiv> 29"
abbreviation (input) KEY_A :: nat where "KEY_A \<equiv> 30"
abbreviation (input) KEY_LEFTSHIFT :: nat where "KEY_LEFTSHIFT \<equiv> 42"
abbreviation (input) KEY_LEFTALT :: nat where "KEY_LEFTALT \<equiv> 56"
abbreviation (input) KEY_UP :: nat where "KEY_UP \<equiv> 103"
abbreviation (input) KEY_LEFT :: nat where "KEY_LEFT \<equiv> 105"
abbreviation (input) KEY_RIGHT :: nat where "KEY_RIGHT \<equiv> 106"
abbreviation (input) KEY_DOWN :: nat where "KEY_DOWN \<equiv> 108"
abbreviation (input) KEY_LEFTMETA :: nat where "KEY_LEFTMETA \<equiv> 125"

abbreviation (input) BTN_LEFT :: nat where "BTN_LEFT \<equiv> 272"
abbreviation (input) BTN_RIGHT :: nat where "BTN_RIGHT \<equiv> 273"
abbreviation (input) BTN_SIDE :: nat where "BTN_SIDE \<equiv> 275"
abbreviation (input) BTN_EXTRA :: nat where "BTN_EXTRA \<equiv> 276"

abbreviation (input) BTN_SOUTH :: nat where "BTN_SOUTH \<equiv> 304"
abbreviation (input) BTN_A :: nat where "BTN_A \<equiv> BTN_SOUTH"
abbreviation (input) BTN_EAST :: nat where "BTN_EAST \<equiv> 305"
abbreviation (input) BTN_NORTH :: nat where "BTN_NORTH \<equiv> 307"
abbreviation (input) BTN_WEST :: nat where "BTN_WEST \<equiv> 308"
abbreviation (input) BTN_TL :: nat where "BTN_TL \<equiv> 310"
abbreviation (input) BTN_TR :: nat where "BTN_TR \<equiv> 311"
abbreviation (input) BTN_SELECT :: nat where "BTN_SELECT \<equiv> 314"
abbreviation (input) BTN_START :: nat where "BTN_START \<equiv> 315"
abbreviation (input) BTN_THUMBL :: nat where "BTN_THUMBL \<equiv> 317"
abbreviation (input) BTN_THUMBR :: nat where "BTN_THUMBR \<equiv> 318"
abbreviation (input) BTN_DPAD_UP :: nat where "BTN_DPAD_UP \<equiv> 544"
abbreviation (input) BTN_DPAD_DOWN :: nat where "BTN_DPAD_DOWN \<equiv> 545"
abbreviation (input) BTN_DPAD_LEFT :: nat where "BTN_DPAD_LEFT \<equiv> 546"
abbreviation (input) BTN_DPAD_RIGHT :: nat where "BTN_DPAD_RIGHT \<equiv> 547"

text \<open>\<^verbatim>\<open>ENODEV\<close> of \<^verbatim>\<open>errno.h\<close> and \<^verbatim>\<open>EAGAIN\<close>.\<close>

abbreviation (input) ENODEV :: int where "ENODEV \<equiv> 19"
abbreviation (input) EAGAIN :: int where "EAGAIN \<equiv> 11"

section \<open>The effects of the program\<close>

text \<open>
  Everything \<^verbatim>\<open>main\<close> and \<^verbatim>\<open>find_gamepad\<close> do to the outside world, in
  the order they do it: opening and closing the device files
  \<^verbatim>\<open>/dev/input/event<i>\<close>, freeing a libevdev handle, writing an event
  \<open>(type, code, value)\<close> to the virtual device with
  \<^verbatim>\<open>libevdev_uinput_write_event\<close>, and the final release of the inotify
  descriptor and of the virtual device. The diagnostics printed with
  \<^verbatim>\<open>warnx\<close> are not part of the model.
\<close>

datatype action =
    Open nat
  | Close nat
  | Free nat
  | Write nat nat int
  | CloseInotify
  | DestroyUinput

section \<open>find_gamepad\<close>

text \<open>
  What libevdev reports about an opened device: \<^verbatim>\<open>libevdev_has_event_type\<close>
  and \<^verbatim>\<open>libevdev_has_event_code\<close>.
\<close>

record evdev =
  has_event_type :: "nat \<Rightarrow> bool"
  has_event_code :: "nat \<Rightarrow> nat \<Rightarrow> bool"

text \<open>
  One device file of the namespace, as \<^verbatim>\<open>find_gamepad\<close> meets it:
  \<^verbatim>\<open>open\<close> fails; or \<^verbatim>\<open>open\<close> succeeds and
  \<^verbatim>\<open>libevdev_new_from_fd\<close> fails; or both succeed.
\<close>

datatype candidate =
    OpenFails
  | NewFromFdFails
  | Device evdev

type_synonym namespace = "nat \<Rightarrow> candidate"

text \<open>The condition of lines 40 to 45.\<close>

definition is_gamepad :: "evdev \<Rightarrow> bool" where
  "is_gamepad dev \<longleftrightarrow>
     has_event_type dev EV_ABS \<and>
     has_event_code dev EV_ABS ABS_X \<and>
     has_event_code dev EV_ABS ABS_Y \<and>
     has_event_code dev EV_ABS ABS_RX \<and>
     has_event_code dev EV_ABS ABS_RY \<and>
     has_event_code dev EV_KEY BTN_A"

text \<open>
  The body of the \<^verbatim>\<open>for\<close> loop, over the indices still to visit. The result
  is the effects in order and the index of the device returned, if any.
  A failing \<^verbatim>\<open>open\<close> leaves the loop (\<^verbatim>\<open>break\<close>); a failing
  \<^verbatim>\<open>libevdev_new_from_fd\<close> closes the descriptor and goes on; a device that
  is not a gamepad is freed, closed and the loop goes on.
\<close>

fun find_gamepad_loop :: "namespace \<Rightarrow> nat list \<Rightarrow> action list \<times> nat option" where
  "find_gamepad_loop ns [] = ([], None)"
| "find_gamepad_loop ns (i # is) =
     (case ns i of
        OpenFails \<Rightarrow> ([Open i], None)
      | NewFromFdFails \<Rightarrow>
          (let (acts, r) = find_gamepad_loop ns is in (Open i # Close i # acts, r))
      | Device dev \<Rightarrow>
          if is_gamepad dev then ([Open i], Some i)
          else (let (acts, r) = find_gamepad_loop ns is
                in (Open i # Free i # Close i # acts, r)))"

definition find_gamepad :: "namespace \<Rightarrow> action list \<times> nat option" where
  "find_gamepad ns = find_gamepad_loop ns [0..<32]"

text \<open>A candidate that \<^verbatim>\<open>find_gamepad\<close> accepts.\<close>

fun qualifies :: "candidate \<Rightarrow> bool" where
  "qualifies (Device dev) = is_gamepad dev"
| "qualifies _ = False"

text \<open>What the loop does to a candidate it skips.\<close>

fun skipped :: "namespace \<Rightarrow> nat \<Rightarrow> action list" where
  "skipped ns i =
     (case ns i of
        OpenFails \<Rightarrow> [Open i]
      | NewFromFdFails \<Rightarrow> [Open i, Close i]
      | Device dev \<Rightarrow> [Open i, Free i, Close i])"

text \<open>A candidate that the loop passes over and goes on from.\<close>

definition passes :: "namespace \<Rightarrow> nat \<Rightarrow> bool" where
  "passes ns j \<longleftrightarrow> ns j \<noteq> OpenFails \<and> \<not> qualifies (ns j)"

section \<open>C arithmetic\<close>

text \<open>
  \<^verbatim>\<open>int\<close> is 32 bits wide and \<^verbatim>\<open>int64_t\<close> 64. Values are mathematical
  integers; an operation whose result C leaves undefined (\<^verbatim>\<open>abs(INT_MIN)\<close>,
  signed overflow of a product, a \<^verbatim>\<open>double\<close> too large for the integer type
  it is converted to) has the value \<open>None\<close>.
\<close>

definition in_int64 :: "int \<Rightarrow> bool" where
  "in_int64 x \<longleftrightarrow> - (2 ^ 63) \<le> x \<and> x < 2 ^ 63"

text \<open>\<^verbatim>\<open>abs\<close> of \<^verbatim>\<open>stdlib.h\<close> on an \<^verbatim>\<open>int\<close>.\<close>

definition c_abs :: "int \<Rightarrow> int option" where
  "c_abs v = (if v = - (2 ^ 31) then None else Some \<bar>v\<bar>)"

text \<open>Division of C: the quotient is truncated towards zero.\<close>

definition tdiv :: "int \<Rightarrow> int \<Rightarrow> int" where
  "tdiv a b = (if (a < 0) = (b < 0) then \<bar>a\<bar> div \<bar>b\<bar> else - (\<bar>a\<bar> div \<bar>b\<bar>))"

text \<open>The product of two \<^verbatim>\<open>int64_t\<close>.\<close>

definition mul_int64 :: "int \<Rightarrow> int \<Rightarrow> int option" where
  "mul_int64 a b = (if in_int64 (a * b) then Some (a * b) else None)"

text \<open>
  The conversion \<^verbatim>\<open>(int)\<close> of an \<^verbatim>\<open>int64_t\<close>: the value when it fits, and
  otherwise, as gcc and clang define it, the value reduced modulo \<open>2^32\<close> into the
  range of \<^verbatim>\<open>int\<close>.
\<close>

definition to_int :: "int \<Rightarrow> int" where
  "to_int x = (x + 2 ^ 31) mod 2 ^ 32 - 2 ^ 31"

section \<open>Floating point\<close>

text \<open>
  A finite \<^verbatim>\<open>double\<close> is the real number it denotes. \<open>rne\<close> rounds a real to
  the nearest number with a 53-bit significand, a tie to the one whose significand is
  even: the rounding of IEEE 754 binary64 arithmetic in its default mode, which the
  Linux targets of this program use for \<^verbatim>\<open>double\<close>. The exponent range is
  not modelled: the values of the program stay far from its ends.
\<close>

definition round_half_even :: "real \<Rightarrow> int" where
  "round_half_even m =
     (let f = \<lfloor>m\<rfloor> in
      if m - of_int f < 1 / 2 then f
      else if 1 / 2 < m - of_int f then f + 1
      else if even f then f else f + 1)"

text \<open>The weight of the last of the 53 bits of the significand of \<open>x\<close>.\<close>

definition ulp :: "real \<Rightarrow> real" where
  "ulp x = 2 powr (of_int \<lfloor>log 2 \<bar>x\<bar>\<rfloor> - 52)"

definition rne :: "real \<Rightarrow> real" where
  "rne x = (if x = 0 then 0 else sgn x * (of_int (round_half_even (\<bar>x\<bar> / ulp x)) * ulp x))"

text \<open>The conversion \<^verbatim>\<open>(double)\<close> of an integer, and the product of two doubles.\<close>

definition double_of_int :: "int \<Rightarrow> real" where
  "double_of_int i = rne (of_int i)"

definition dmul :: "real \<Rightarrow> real \<Rightarrow> real" where
  "dmul x y = rne (x * y)"

text \<open>
  The conversion \<^verbatim>\<open>(int64_t)\<close> of a \<^verbatim>\<open>double\<close>: the fractional part is
  discarded; undefined when the result does not fit.
\<close>

definition trunc :: "real \<Rightarrow> int" where
  "trunc x = (if 0 \<le> x then \<lfloor>x\<rfloor> else \<lceil>x\<rceil>)"

definition to_int64 :: "real \<Rightarrow> int option" where
  "to_int64 x = (if in_int64 (trunc x) then Some (trunc x) else None)"

text \<open>
  \<^verbatim>\<open>pow\<close> of \<^verbatim>\<open>math.h\<close> is a function of the C library, outside the
  repository, whose results are not fixed digit for digit by any standard. The model
  takes it as a parameter \<open>pw\<close>: base and exponent to result.
\<close>

type_synonym libm_pow = "real \<Rightarrow> real \<Rightarrow> real"

text \<open>
  One such function, for computing examples: the correctly rounded power, which is 1
  for the exponent 0 as the C standard requires of \<^verbatim>\<open>pow\<close>.
\<close>

definition ideal_pow :: libm_pow where
  "ideal_pow b e = (if e = 0 then 1 else rne (b powr e))"

section \<open>AxisAccelerator\<close>

text \<open>
  The constants of lines 130 to 135 for one stick: \<^verbatim>\<open>lbase, ldiv1, lsub, ldiv2,
  lmul\<close> for the left stick and \<^verbatim>\<open>rbase, rdiv1, rsub, rdiv2, rmul\<close> for the
  right one. The base is the \<^verbatim>\<open>double\<close> written \<^verbatim>\<open>1.01\<close>.
\<close>

record stick =
  base :: real
  div1 :: int
  sub :: int
  div2 :: int
  mul :: int

definition lstick :: stick where
  "lstick = \<lparr>base = rne (101 / 100), div1 = 2 ^ 9, sub = 2 ^ 13, div2 = 2 ^ 36, mul = 1\<rparr>"

definition rstick :: stick where
  "rstick = \<lparr>base = rne (101 / 100), div1 = 2 ^ 9, sub = 2 ^ 13, div2 = 2 ^ 36, mul = 2\<rparr>"

text \<open>
  The exponent \<^verbatim>\<open>(abs(lx) - lsub) / ldiv1\<close>, computed in \<^verbatim>\<open>int64_t\<close>, and
  the factor \<^verbatim>\<open>(int64_t)(pow(lbase, (double)(...)) * lx)\<close>.
\<close>

definition exponent :: "stick \<Rightarrow> int \<Rightarrow> int option" where
  "exponent p v = do { m \<leftarrow> c_abs v; Some (tdiv (m - sub p) (div1 p)) }"

definition factor :: "libm_pow \<Rightarrow> stick \<Rightarrow> int \<Rightarrow> int option" where
  "factor pw p v = do {
     e \<leftarrow> exponent p v;
     to_int64 (dmul (pw (base p) (double_of_int e)) (double_of_int v))
   }"

text \<open>The \<^verbatim>\<open>double\<close> that \<open>factor\<close> converts, when \<^verbatim>\<open>abs\<close> is defined.\<close>

definition scaled :: "libm_pow \<Rightarrow> stick \<Rightarrow> int \<Rightarrow> real" where
  "scaled pw p v =
     dmul (pw (base p) (double_of_int (tdiv (\<bar>v\<bar> - sub p) (div1 p)))) (double_of_int v)"

text \<open>
  Lines 298 to 303 and 310 to 315, for one axis:
  \<^verbatim>\<open>(int)((int64_t)(pow(lbase, (double)((abs(lx) - lsub) / ldiv1)) * lx) * interval / ldiv2 * lmul)\<close>.
\<close>

definition AxisAccelerator :: "libm_pow \<Rightarrow> stick \<Rightarrow> int \<Rightarrow> int \<Rightarrow> int option" where
  "AxisAccelerator pw p v interval = do {
     a \<leftarrow> factor pw p v;
     b \<leftarrow> mul_int64 a interval;
     c \<leftarrow> mul_int64 (tdiv b (div2 p)) (mul p);
     Some (to_int c)
   }"

section \<open>The session state\<close>

text \<open>
  The local variables of \<^verbatim>\<open>main\<close> that live through one session (lines 127
  to 137); \<^verbatim>\<open>int\<close> and \<^verbatim>\<open>int64_t\<close> values are integers.
\<close>

record session =
  lx :: int
  ly :: int
  rx :: int
  ry :: int
  slx :: int
  sly :: int
  srx :: int
  sry :: int
  hat0x :: int
  hat0y :: int
  lz :: bool
  rz :: bool
  last_time :: int

definition init_session :: "int \<Rightarrow> session" where
  "init_session t =
     \<lparr>lx = 0, ly = 0, rx = 0, ry = 0, slx = 0, sly = 0, srx = 0, sry = 0,
      hat0x = 0, hat0y = 0, lz = False, rz = False, last_time = t\<rparr>"

text \<open>\<^verbatim>\<open>struct input_event\<close>, without its time stamp, which the program never reads.\<close>

record input_event =
  ev_type :: nat
  ev_code :: nat
  ev_value :: int

abbreviation report :: action where
  "report \<equiv> Write EV_SYN SYN_REPORT 0"

section \<open>EdgeKeyMapper\<close>

text \<open>
  The cases \<^verbatim>\<open>ABS_HAT0X\<close> (lines 192 to 204, keys \<^verbatim>\<open>KEY_LEFT\<close> and
  \<^verbatim>\<open>KEY_RIGHT\<close>) and \<^verbatim>\<open>ABS_HAT0Y\<close> (lines 205 to 217, keys
  \<^verbatim>\<open>KEY_UP\<close> and \<^verbatim>\<open>KEY_DOWN\<close>) are the same code over two variables
  and two pairs of keys. \<open>hat\<close> is the variable before the event and \<open>v\<close> the
  value of the event, which the variable holds afterwards.
\<close>

definition hat_key :: "nat \<Rightarrow> nat \<Rightarrow> int \<Rightarrow> nat" where
  "hat_key neg_key pos_key h = (if h < 0 then neg_key else pos_key)"

definition hat_event :: "nat \<Rightarrow> nat \<Rightarrow> int \<Rightarrow> int \<Rightarrow> action list" where
  "hat_event neg_key pos_key hat v =
     (if hat \<noteq> 0 \<and> hat \<noteq> v
      then [Write EV_KEY (hat_key neg_key pos_key hat) 0, report] else []) @
     (if v \<noteq> 0
      then [Write EV_KEY (hat_key neg_key pos_key v) 1, report] else [])"

section \<open>HysteresisLatch\<close>

text \<open>
  The cases \<^verbatim>\<open>ABS_Z\<close> (lines 218 to 229, variable \<^verbatim>\<open>lz\<close>, key
  \<^verbatim>\<open>KEY_LEFTCTRL\<close>) and \<^verbatim>\<open>ABS_RZ\<close> (lines 230 to 241, variable
  \<^verbatim>\<open>rz\<close>, key \<^verbatim>\<open>KEY_LEFTSHIFT\<close>): two \<^verbatim>\<open>if\<close> statements in a row, the
  second reading the variable the first may have set.
\<close>

definition z_down_threshold :: int where
  "z_down_threshold = 512"

definition z_up_threshold :: int where
  "z_up_threshold = 256"

definition trigger_event :: "nat \<Rightarrow> bool \<Rightarrow> int \<Rightarrow> bool \<times> action list" where
  "trigger_event key z v =
     (let (z1, out1) =
            (if z_down_threshold < v \<and> \<not> z then (True, [Write EV_KEY key 1, report])
             else (z, []));
          (z2, out2) =
            (if v < z_up_threshold \<and> z1 then (False, [Write EV_KEY key 0, report])
             else (z1, []))
      in (z2, out1 @ out2))"

text \<open>A sequence of events of one trigger: the variable after each event, and all the writes.\<close>

fun trigger_events :: "nat \<Rightarrow> bool \<Rightarrow> int list \<Rightarrow> bool list \<times> action list" where
  "trigger_events key z [] = ([], [])"
| "trigger_events key z (v # vs) =
     (let (z', out) = trigger_event key z v;
          (zs, outs) = trigger_events key z' vs
      in (z' # zs, out @ outs))"

section \<open>ButtonRouter\<close>

text \<open>
  The \<^verbatim>\<open>switch (ev.code)\<close> of the case \<^verbatim>\<open>EV_KEY\<close> (lines 246 to 292) and
  the write of line 293 that follows it for every code.
\<close>

definition button_writes :: "nat \<Rightarrow> int \<Rightarrow> action list" where
  "button_writes code v =
     (if code = BTN_SOUTH then [Write EV_KEY BTN_LEFT v]
      else if code = BTN_EAST then [Write EV_KEY BTN_RIGHT v]
      else if code = BTN_SELECT then [Write EV_KEY KEY_LEFTMETA v]
      else if code = BTN_START then [Write EV_KEY KEY_LEFTMETA v, Write EV_KEY KEY_A v]
      else if code = BTN_TR then [Write EV_KEY KEY_TAB v]
      else if code = BTN_TL then [Write EV_KEY KEY_LEFTSHIFT v, Write EV_KEY KEY_TAB v]
      else if code = BTN_DPAD_UP then [Write EV_KEY KEY_UP v]
      else if code = BTN_DPAD_DOWN then [Write EV_KEY KEY_DOWN v]
      else if code = BTN_DPAD_LEFT then [Write EV_KEY KEY_LEFT v]
      else if code = BTN_DPAD_RIGHT then [Write EV_KEY KEY_RIGHT v]
      else if code = BTN_WEST then [Write EV_KEY BTN_EXTRA v]
      else if code = BTN_NORTH then [Write EV_KEY BTN_SIDE v]
      else if code = BTN_THUMBL then [Write EV_KEY KEY_LEFTALT v]
      else if code = BTN_THUMBR then [Write EV_KEY KEY_ENTER v]
      else [])"

definition key_event :: "nat \<Rightarrow> int \<Rightarrow> action list" where
  "key_event code v = button_writes code v @ [report]"

text \<open>The codes with a case label in the \<^verbatim>\<open>switch\<close>.\<close>

definition routed :: "nat list" where
  "routed =
     [BTN_SOUTH, BTN_EAST, BTN_SELECT, BTN_START, BTN_TR, BTN_TL, BTN_DPAD_UP,
      BTN_DPAD_DOWN, BTN_DPAD_LEFT, BTN_DPAD_RIGHT, BTN_WEST, BTN_NORTH, BTN_THUMBL,
      BTN_THUMBR]"

section \<open>One input event\<close>

text \<open>The \<^verbatim>\<open>switch (ev.type)\<close> of lines 177 to 295.\<close>

definition handle_event :: "session \<Rightarrow> input_event \<Rightarrow> session \<times> action list" where
  "handle_event st ev =
     (let v = ev_value ev; code = ev_code ev in
      if ev_type ev = EV_ABS then
        if code = ABS_X then (st\<lparr>lx := v\<rparr>, [])
        else if code = ABS_Y then (st\<lparr>ly := v\<rparr>, [])
        else if code = ABS_RX then (st\<lparr>rx := v\<rparr>, [])
        else if code = ABS_RY then (st\<lparr>ry := v\<rparr>, [])
        else if code = ABS_HAT0X then
          (st\<lparr>hat0x := v\<rparr>, hat_event KEY_LEFT KEY_RIGHT (hat0x st) v)
        else if code = ABS_HAT0Y then
          (st\<lparr>hat0y := v\<rparr>, hat_event KEY_UP KEY_DOWN (hat0y st) v)
        else if code = ABS_Z then
          (let (z, out) = trigger_event KEY_LEFTCTRL (lz st) v in (st\<lparr>lz := z\<rparr>, out))
        else if code = ABS_RZ then
          (let (z, out) = trigger_event KEY_LEFTSHIFT (rz st) v in (st\<lparr>rz := z\<rparr>, out))
        else (st, [])
      else if ev_type ev = EV_KEY then (st, key_event code v)
      else (st, []))"

section \<open>Pointer and scroll output\<close>

text \<open>Lines 304 to 308 and lines 316 to 322.\<close>

definition emit_pointer :: "int \<Rightarrow> int \<Rightarrow> action list" where
  "emit_pointer x y =
     (if x \<noteq> 0 \<or> y \<noteq> 0 then [Write EV_REL REL_X x, Write EV_REL REL_Y y, report] else [])"

definition emit_scroll :: "int \<Rightarrow> int \<Rightarrow> action list" where
  "emit_scroll x y =
     (if x \<noteq> 0 \<or> y \<noteq> 0
      then [if \<bar>y\<bar> < \<bar>x\<bar> then Write EV_REL REL_HWHEEL_HI_RES (- x)
            else Write EV_REL REL_WHEEL_HI_RES y,
            report]
      else [])"

text \<open>
  Lines 298 to 322: the four deltas are recomputed from the stick positions and the
  interval, and written out. \<open>None\<close> when one of the four computations is undefined.
\<close>

definition motion :: "libm_pow \<Rightarrow> session \<Rightarrow> int \<Rightarrow> (session \<times> action list) option" where
  "motion pw st interval = do {
     x \<leftarrow> AxisAccelerator pw lstick (lx st) interval;
     y \<leftarrow> AxisAccelerator pw lstick (ly st) interval;
     h \<leftarrow> AxisAccelerator pw rstick (rx st) interval;
     w \<leftarrow> AxisAccelerator pw rstick (ry st) interval;
     Some (st\<lparr>slx := x, sly := y, srx := h, sry := w\<rparr>, emit_pointer x y @ emit_scroll h w)
   }"

text \<open>Is a write one of the two scroll axes?\<close>

fun is_scroll :: "action \<Rightarrow> bool" where
  "is_scroll (Write t c v) = (t = EV_REL \<and> (c = REL_WHEEL_HI_RES \<or> c = REL_HWHEEL_HI_RES))"
| "is_scroll _ = False"

section \<open>One iteration of the session loop\<close>

text \<open>
  What the outside world answers during one step of the program: the device
  namespace \<^verbatim>\<open>find_gamepad\<close> scans, the value of \<^verbatim>\<open>get_time()\<close>, the
  return value of \<^verbatim>\<open>poll\<close> and the two \<^verbatim>\<open>revents\<close> it fills in, the return
  value of \<^verbatim>\<open>libevdev_next_event\<close> and the event it stores, and the return value
  and \<^verbatim>\<open>errno\<close> of one \<^verbatim>\<open>read\<close> on the inotify descriptor. A step reads the
  fields the code reads there and no others.
\<close>

record env =
  devices :: namespace
  now :: int
  poll_rc :: int
  revents0 :: int
  revents1 :: int
  next_event_rc :: int
  next_event :: input_event
  read_rc :: int
  read_errno :: int

text \<open>
  How one iteration of the \<^verbatim>\<open>while\<close> loop of lines 139 to 323 ends: it goes
  round again with a new state, having written events; or it leaves the loop with
  \<^verbatim>\<open>quit\<close> set (line 151); or it leaves the loop on \<^verbatim>\<open>-ENODEV\<close> (line 161);
  or the process exits through \<^verbatim>\<open>err\<close> (lines 146 and 164); or a delta is
  undefined.
\<close>

datatype outcome =
    Continue session "action list"
  | Quit
  | Disconnected
  | Fatal
  | Undefined

definition session_iter :: "libm_pow \<Rightarrow> session \<Rightarrow> env \<Rightarrow> outcome" where
  "session_iter pw st w =
     (let interval = now w - last_time st;
          st0 = st\<lparr>last_time := now w\<rparr>
      in
      if poll_rc w < 0 then Fatal
      else if revents1 w \<noteq> 0 then Quit
      else if revents0 w \<noteq> 0 \<and> next_event_rc w < 0 then
        (if next_event_rc w = - ENODEV then Disconnected else Fatal)
      else
        (let (st1, out1) =
               (if revents0 w \<noteq> 0 then handle_event st0 (next_event w) else (st0, []))
         in case motion pw st1 interval of
              None \<Rightarrow> Undefined
            | Some (st2, out2) \<Rightarrow> Continue st2 (out1 @ out2)))"

text \<open>The timeout of the \<^verbatim>\<open>poll\<close> of line 140.\<close>

definition poll_timeout :: "session \<Rightarrow> int" where
  "poll_timeout st = (if slx st \<noteq> 0 \<or> sly st \<noteq> 0 \<or> srx st \<noteq> 0 \<or> sry st \<noteq> 0 then 20 else - 1)"

section \<open>The outer loop of main\<close>

text \<open>
  The places where \<^verbatim>\<open>main\<close> waits for the outside world, after its set-up:
  \<^item> \<open>SEARCHING\<close>: the top of the \<^verbatim>\<open>for\<close> loop, about to call
    \<^verbatim>\<open>find_gamepad\<close> (line 121);
  \<^item> \<open>ACTIVE i st\<close>: in the session loop on device \<open>i\<close>, about to call
    \<^verbatim>\<open>poll\<close> (line 140);
  \<^item> \<open>WAIT_HOTPLUG\<close>: in the loop after the label \<^verbatim>\<open>wait_hotplug\<close>, about to
    call \<^verbatim>\<open>poll\<close> (line 332);
  \<^item> \<open>DRAINING\<close>: in the loop of lines 343 to 350, about to call \<^verbatim>\<open>read\<close>;
  \<^item> \<open>TERMINATED\<close>: returned from \<^verbatim>\<open>main\<close> (line 359);
  \<^item> \<open>FATAL\<close>: exited through \<^verbatim>\<open>err\<close>;
  \<^item> \<open>UNDEFINED\<close>: a delta was undefined.
\<close>

datatype orch =
    SEARCHING
  | ACTIVE nat session
  | WAIT_HOTPLUG
  | DRAINING
  | TERMINATED
  | FATAL
  | UNDEFINED

text \<open>
  One step of \<^verbatim>\<open>main\<close>, from one of these places to the next. After the session
  loop the device is released (lines 325 and 326); then \<^verbatim>\<open>quit\<close> decides between
  leaving the \<^verbatim>\<open>for\<close> loop and running on into the code after the label
  \<^verbatim>\<open>wait_hotplug\<close> (lines 327 to 330).
\<close>

definition orch_step :: "libm_pow \<Rightarrow> orch \<Rightarrow> env \<Rightarrow> orch \<times> action list" where
  "orch_step pw s w =
     (case s of
        SEARCHING \<Rightarrow>
          (case find_gamepad (devices w) of
             (acts, None) \<Rightarrow> (WAIT_HOTPLUG, acts)
           | (acts, Some i) \<Rightarrow> (ACTIVE i (init_session (now w)), acts))
      | ACTIVE i st \<Rightarrow>
          (case session_iter pw st w of
             Continue st' out \<Rightarrow> (ACTIVE i st', out)
           | Quit \<Rightarrow> (TERMINATED, [Free i, Close i, CloseInotify, DestroyUinput])
           | Disconnected \<Rightarrow> (WAIT_HOTPLUG, [Free i, Close i])
           | Fatal \<Rightarrow> (FATAL, [])
           | Undefined \<Rightarrow> (UNDEFINED, []))
      | WAIT_HOTPLUG \<Rightarrow>
          if poll_rc w < 0 then (FATAL, [])
          else if revents1 w \<noteq> 0 then (TERMINATED, [CloseInotify, DestroyUinput])
          else if revents0 w \<noteq> 0 then (DRAINING, [])
          else (WAIT_HOTPLUG, [])
      | DRAINING \<Rightarrow>
          if read_rc w < 0 then (if read_errno w = EAGAIN then (SEARCHING, []) else (FATAL, []))
          else (DRAINING, [])
      | TERMINATED \<Rightarrow> (TERMINATED, [])
      | FATAL \<Rightarrow> (FATAL, [])
      | UNDEFINED \<Rightarrow> (UNDEFINED, []))"

text \<open>A run: the places reached after each step, and all the effects in order.\<close>

fun orch_run :: "libm_pow \<Rightarrow> orch \<Rightarrow> env list \<Rightarrow> orch list \<times> action list" where
  "orch_run pw s [] = ([], [])"
| "orch_run pw s (w # ws) =
     (let (s', out) = orch_step pw s w;
          (ss, outs) = orch_run pw s' ws
      in (s' # ss, out @ outs))"

section \<open>Observing the program\<close>

text \<open>An absolute-axis event and a key event, as the device delivers them.\<close>

definition abs_ev :: "nat \<Rightarrow> int \<Rightarrow> input_event" where
  "abs_ev code v = \<lparr>ev_type = EV_ABS, ev_code = code, ev_value = v\<rparr>"

definition key_ev :: "nat \<Rightarrow> int \<Rightarrow> input_event" where
  "key_ev code v = \<lparr>ev_type = EV_KEY, ev_code = code, ev_value = v\<rparr>"

text \<open>A sequence of input events through \<open>handle_event\<close>: the last state and all the writes.\<close>

fun handle_events :: "session \<Rightarrow> input_event list \<Rightarrow> session \<times> action list" where
  "handle_events st [] = (st, [])"
| "handle_events st (ev # evs) =
     (let (st1, out1) = handle_event st ev;
          (st2, out2) = handle_events st1 evs
      in (st2, out1 @ out2))"

text \<open>
  The keys a reader of the virtual device sees down after a sequence of writes: a key
  is down when the last write for it had a value other than 0.
\<close>

fun press :: "(nat \<Rightarrow> bool) \<Rightarrow> action \<Rightarrow> nat \<Rightarrow> bool" where
  "press down (Write t c v) = (if t = EV_KEY then down(c := v \<noteq> 0) else down)"
| "press down _ = down"

definition held :: "action list \<Rightarrow> nat \<Rightarrow> bool" where
  "held out = foldl press (\<lambda>k. False) out"

section \<open>Example inputs\<close>

text \<open>A gamepad and a mouse, by what libevdev reports of them.\<close>

definition gamepad :: evdev where
  "gamepad =
     \<lparr>has_event_type = (\<lambda>t. t = EV_KEY \<or> t = EV_ABS),
      has_event_code = (\<lambda>t c.
        t = EV_ABS \<and> c \<in> set [ABS_X, ABS_Y, ABS_Z, ABS_RX, ABS_RY, ABS_RZ, ABS_HAT0X, ABS_HAT0Y] \<or>
        t = EV_KEY \<and> c \<in> set routed)\<rparr>"

definition mouse :: evdev where
  "mouse =
     \<lparr>has_event_type = (\<lambda>t. t = EV_KEY \<or> t = EV_REL),
      has_event_code = (\<lambda>t c.
        t = EV_REL \<and> c \<in> set [REL_X, REL_Y] \<or>
        t = EV_KEY \<and> c \<in> set [BTN_LEFT, BTN_RIGHT])\<rparr>"

text \<open>
  Five device files, of which only \<^verbatim>\<open>event3\<close> is a gamepad; and a namespace
  where \<^verbatim>\<open>event0\<close> cannot be opened and \<^verbatim>\<open>event1\<close> is a gamepad.
\<close>

definition five_files :: namespace where
  "five_files i =
     (if i = 0 then Device mouse
      else if i = 1 then NewFromFdFails
      else if i = 2 then Device mouse
      else if i = 3 then Device gamepad
      else if i = 4 then Device mouse
      else OpenFails)"

definition gap_files :: namespace where
  "gap_files i = (if i = 1 then Device gamepad else OpenFails)"

text \<open>
  Answers of the outside world: \<^verbatim>\<open>poll\<close> returns on its timeout 40 ms after
  the session began; the device reports \<^verbatim>\<open>-ENODEV\<close>; a signal arrives.
\<close>

definition timeout_40ms :: env where
  "timeout_40ms =
     \<lparr>devices = five_files, now = 40000000, poll_rc = 0, revents0 = 0, revents1 = 0,
      next_event_rc = 0, next_event = abs_ev ABS_X 0, read_rc = 0, read_errno = 0\<rparr>"

definition unplugged :: env where
  "unplugged = timeout_40ms\<lparr>poll_rc := 1, revents0 := 1, next_event_rc := - ENODEV\<rparr>"

definition interrupted :: env where
  "interrupted = timeout_40ms\<lparr>poll_rc := 1, revents1 := 1\<rparr>"

text \<open>A session 40 ms after its start, with the right stick pushed down and a little less to the right.\<close>

definition scrolling :: session where
  "scrolling = (init_session 0)\<lparr>rx := 8192, ry := 8703\<rparr>"

section \<open>Properties of find_gamepad\<close>

lemma loop_all_pass:
  "\<forall>j\<in>set js. passes ns j \<Longrightarrow>
   find_gamepad_loop ns js = (concat (map (skipped ns) js), None)"
  by (induction js) (auto simp: passes_def split: candidate.splits)

lemma loop_found:
  "\<forall>j\<in>set pre. passes ns j \<Longrightarrow> qualifies (ns i) \<Longrightarrow>
   find_gamepad_loop ns (pre @ i # post) = (concat (map (skipped ns) pre) @ [Open i], Some i)"
  by (induction pre) (auto simp: passes_def split: candidate.splits)

lemma loop_open_fails:
  "\<forall>j\<in>set pre. passes ns j \<Longrightarrow> ns k = OpenFails \<Longrightarrow>
   find_gamepad_loop ns (pre @ k # post) = (concat (map (skipped ns) pre) @ [Open k], None)"
  by (induction pre) (auto simp: passes_def split: candidate.splits)

lemma upt_split: "i < n \<Longrightarrow> [0..<n] = [0..<i] @ i # [Suc i..<n]"
  by (metis le_add2 le_add_same_cancel2 less_imp_add_positive upt_add_eq_append upt_rec)

lemma find_gamepad_found:
  assumes "i < 32" "qualifies (ns i)" "\<forall>j<i. passes ns j"
  shows "find_gamepad ns = (concat (map (skipped ns) [0..<i]) @ [Open i], Some i)"
  unfolding find_gamepad_def
  using assms loop_found[of "[0..<i]" ns i "[Suc i..<32]"] upt_split[of i 32]
  by simp

lemma find_gamepad_open_fails:
  assumes "k < 32" "ns k = OpenFails" "\<forall>j<k. passes ns j"
  shows "find_gamepad ns = (concat (map (skipped ns) [0..<k]) @ [Open k], None)"
  unfolding find_gamepad_def
  using assms loop_open_fails[of "[0..<k]" ns k "[Suc k..<32]"] upt_split[of k 32]
  by simp

lemma find_gamepad_all_pass:
  assumes "\<forall>j<32. passes ns j"
  shows "find_gamepad ns = (concat (map (skipped ns) [0..<32]), None)"
  unfolding find_gamepad_def using assms loop_all_pass[of "[0..<32]" ns] by simp

text \<open>The loop stops at the first candidate that does not pass, if there is one.\<close>

lemma first_stop:
  "(\<forall>j<n. passes ns j) \<or> (\<exists>k<n. \<not> passes ns k \<and> (\<forall>j<k. passes ns j))"
proof (cases "\<forall>j<n. passes ns j")
  case True
  then show ?thesis by simp
next
  case False
  then have "\<exists>k. \<not> passes ns k \<and> k < n" by auto
  then obtain k where "\<not> passes ns k \<and> k < n" "\<forall>j<k. \<not> (\<not> passes ns j \<and> j < n)"
    using exists_least_iff[of "\<lambda>k. \<not> passes ns k \<and> k < n"] by auto
  then show ?thesis by (metis order.strict_trans)
qed

lemma find_gamepad_Some_iff:
  "snd (find_gamepad ns) = Some i \<longleftrightarrow> i < 32 \<and> qualifies (ns i) \<and> (\<forall>j<i. passes ns j)"
proof
  assume "i < 32 \<and> qualifies (ns i) \<and> (\<forall>j<i. passes ns j)"
  then show "snd (find_gamepad ns) = Some i" using find_gamepad_found[of i ns] by simp
next
  assume L: "snd (find_gamepad ns) = Some i"
  from first_stop[of 32 ns] show "i < 32 \<and> qualifies (ns i) \<and> (\<forall>j<i. passes ns j)"
  proof
    assume "\<forall>j<32. passes ns j"
    then show ?thesis using find_gamepad_all_pass[of ns] L by simp
  next
    assume "\<exists>k<32. \<not> passes ns k \<and> (\<forall>j<k. passes ns j)"
    then obtain k where k: "k < 32" "\<not> passes ns k" "\<forall>j<k. passes ns j" by auto
    show ?thesis
    proof (cases "ns k = OpenFails")
      case True
      then show ?thesis using find_gamepad_open_fails[of k ns] k L by simp
    next
      case False
      then have "qualifies (ns k)" using k(2) by (simp add: passes_def)
      then show ?thesis using find_gamepad_found[of k ns] k L by auto
    qed
  qed
qed

lemma upt_three: "[0..<3] = [0, 1, 2]"
  by (simp add: upt_conv_Cons)

lemma upt_thirty_two: "[0..<32] = 0 # [1..<32]"
  by (simp add: upt_conv_Cons)

lemma gamepad_qualifies: "is_gamepad gamepad"
  by (simp add: is_gamepad_def gamepad_def routed_def)

lemma mouse_passes: "\<not> is_gamepad mouse"
  by (simp add: is_gamepad_def mouse_def)

text \<open>
  C2, as amended. \<^verbatim>\<open>find_gamepad\<close> tries \<^verbatim>\<open>event0\<close> to \<^verbatim>\<open>event31\<close> in
  order and stops at the first candidate that is a gamepad, which it returns, or whose
  \<^verbatim>\<open>open\<close> fails, where it gives up and returns nothing. So it returns candidate
  \<open>i\<close> exactly when \<open>i\<close> is below 32, declares \<^verbatim>\<open>EV_ABS\<close>, the four
  axis codes and \<^verbatim>\<open>BTN_A\<close>, and every earlier candidate could be opened and did
  not qualify; each of those was opened and closed again (and freed in between, when
  libevdev had accepted it), and the returned one is left open. A candidate that cannot
  be opened is never closed, and nothing after it is tried.
\<close>

theorem find_gamepad_first_before_open_failure:
  "(snd (find_gamepad ns) = Some i \<longleftrightarrow>
      i < 32 \<and> qualifies (ns i) \<and> (\<forall>j<i. ns j \<noteq> OpenFails \<and> \<not> qualifies (ns j))) \<and>
   (snd (find_gamepad ns) = Some i \<longrightarrow>
      fst (find_gamepad ns) = concat (map (skipped ns) [0..<i]) @ [Open i] \<and>
      (\<forall>j<i. skipped ns j = [Open j, Close j] \<or> skipped ns j = [Open j, Free j, Close j])) \<and>
   (k < 32 \<and> ns k = OpenFails \<and> (\<forall>j<k. ns j \<noteq> OpenFails \<and> \<not> qualifies (ns j)) \<longrightarrow>
      find_gamepad ns = (concat (map (skipped ns) [0..<k]) @ [Open k], None))"
proof (intro conjI impI)
  show iff: "snd (find_gamepad ns) = Some i \<longleftrightarrow>
      i < 32 \<and> qualifies (ns i) \<and> (\<forall>j<i. ns j \<noteq> OpenFails \<and> \<not> qualifies (ns j))"
    using find_gamepad_Some_iff[of ns i] by (simp add: passes_def)
  {
    assume found: "snd (find_gamepad ns) = Some i"
    then have i: "i < 32" "qualifies (ns i)" "\<forall>j<i. passes ns j"
      by (simp_all add: find_gamepad_Some_iff)
    show "fst (find_gamepad ns) = concat (map (skipped ns) [0..<i]) @ [Open i]"
      using find_gamepad_found[OF i] by simp
    show "\<forall>j<i. skipped ns j = [Open j, Close j] \<or> skipped ns j = [Open j, Free j, Close j]"
      using i(3) by (auto simp: passes_def split: candidate.splits)
  }
  {
    assume "k < 32 \<and> ns k = OpenFails \<and> (\<forall>j<k. ns j \<noteq> OpenFails \<and> \<not> qualifies (ns j))"
    then show "find_gamepad ns = (concat (map (skipped ns) [0..<k]) @ [Open k], None)"
      using find_gamepad_open_fails[of k ns] by (simp add: passes_def)
  }
qed

text \<open>
  Among the five device files, the first three are opened and closed again and the
  fourth is returned.
\<close>

theorem find_gamepad_five_files:
  "find_gamepad five_files =
     ([Open 0, Free 0, Close 0, Open 1, Close 1, Open 2, Free 2, Close 2, Open 3], Some 3)"
proof -
  have pre: "\<forall>j<3. five_files j \<noteq> OpenFails \<and> \<not> qualifies (five_files j)"
    by (auto simp: five_files_def mouse_passes)
  have q: "qualifies (five_files 3)"
    by (simp add: five_files_def gamepad_qualifies)
  have r: "snd (find_gamepad five_files) = Some 3"
    using find_gamepad_first_before_open_failure[of five_files 3] pre q by simp
  then have "fst (find_gamepad five_files) = concat (map (skipped five_files) [0..<3]) @ [Open 3]"
    using find_gamepad_first_before_open_failure[of five_files 3] by blast
  then have "fst (find_gamepad five_files) =
      [Open 0, Free 0, Close 0, Open 1, Close 1, Open 2, Free 2, Close 2, Open 3]"
    by (simp add: five_files_def upt_three)
  then show ?thesis using r by (simp add: prod_eq_iff)
qed

text \<open>
  The claim C2 as the specification states it fails where \<^verbatim>\<open>event0\<close> cannot be
  opened and \<^verbatim>\<open>event1\<close> is a gamepad: the scan stops at \<^verbatim>\<open>event0\<close>, which
  it does not close, and the gamepad is not found.
\<close>

theorem find_gamepad_stops_at_unopenable:
  "qualifies (gap_files 1) \<and> find_gamepad gap_files = ([Open 0], None)"
  by (simp add: gap_files_def gamepad_qualifies find_gamepad_def upt_thirty_two)

section \<open>Properties of the event handlers\<close>

lemma handle_event_hat0x:
  "handle_event st (abs_ev ABS_HAT0X v) =
     (st\<lparr>hat0x := v\<rparr>, hat_event KEY_LEFT KEY_RIGHT (hat0x st) v)"
  by (simp add: handle_event_def abs_ev_def)

lemma handle_event_hat0y:
  "handle_event st (abs_ev ABS_HAT0Y v) =
     (st\<lparr>hat0y := v\<rparr>, hat_event KEY_UP KEY_DOWN (hat0y st) v)"
  by (simp add: handle_event_def abs_ev_def)

lemma handle_event_abs_z:
  "handle_event st (abs_ev ABS_Z v) =
     (st\<lparr>lz := fst (trigger_event KEY_LEFTCTRL (lz st) v)\<rparr>,
      snd (trigger_event KEY_LEFTCTRL (lz st) v))"
  by (simp add: handle_event_def abs_ev_def split: prod.splits)

lemma handle_event_abs_rz:
  "handle_event st (abs_ev ABS_RZ v) =
     (st\<lparr>rz := fst (trigger_event KEY_LEFTSHIFT (rz st) v)\<rparr>,
      snd (trigger_event KEY_LEFTSHIFT (rz st) v))"
  by (simp add: handle_event_def abs_ev_def split: prod.splits)

lemma handle_event_key:
  "ev_type ev = EV_KEY \<Longrightarrow> handle_event st ev = (st, key_event (ev_code ev) (ev_value ev))"
  by (simp add: handle_event_def)

subsection \<open>EdgeKeyMapper\<close>

lemma hat_sequence_x:
  "hat0x st = 0 \<Longrightarrow>
   snd (handle_events st (map (abs_ev ABS_HAT0X) [0, - 1, 1, 0])) =
     [Write EV_KEY KEY_LEFT 1, report, Write EV_KEY KEY_LEFT 0, report,
      Write EV_KEY KEY_RIGHT 1, report, Write EV_KEY KEY_RIGHT 0, report]"
  by (simp add: handle_event_hat0x hat_event_def hat_key_def)

lemma hat_sequence_y:
  "hat0y st = 0 \<Longrightarrow>
   snd (handle_events st (map (abs_ev ABS_HAT0Y) [0, - 1, 1, 0])) =
     [Write EV_KEY KEY_UP 1, report, Write EV_KEY KEY_UP 0, report,
      Write EV_KEY KEY_DOWN 1, report, Write EV_KEY KEY_DOWN 0, report]"
  by (simp add: handle_event_hat0y hat_event_def hat_key_def)

text \<open>
  C3, as amended. For each axis of the directional pad, the values 0, -1, +1, 0 fed to
  a centred axis write exactly: down of the negative key, report; up of the negative
  key, report; down of the positive key, report; up of the positive key, report. Every
  key write is followed by a report of its own, so the up and the down of the direct
  change from negative to positive are two batches, the up first; and after no prefix
  of the writes are both keys of the axis down.
\<close>

theorem hat_sequence_own_reports:
  "hat0x st = 0 \<and> hat0y st = 0 \<longrightarrow>
   snd (handle_events st (map (abs_ev ABS_HAT0X) [0, - 1, 1, 0])) =
     [Write EV_KEY KEY_LEFT 1, report, Write EV_KEY KEY_LEFT 0, report,
      Write EV_KEY KEY_RIGHT 1, report, Write EV_KEY KEY_RIGHT 0, report] \<and>
   snd (handle_events st (map (abs_ev ABS_HAT0Y) [0, - 1, 1, 0])) =
     [Write EV_KEY KEY_UP 1, report, Write EV_KEY KEY_UP 0, report,
      Write EV_KEY KEY_DOWN 1, report, Write EV_KEY KEY_DOWN 0, report] \<and>
   list_all (\<lambda>out. \<not> (held out KEY_LEFT \<and> held out KEY_RIGHT))
     (prefixes (snd (handle_events st (map (abs_ev ABS_HAT0X) [0, - 1, 1, 0])))) \<and>
   list_all (\<lambda>out. \<not> (held out KEY_UP \<and> held out KEY_DOWN))
     (prefixes (snd (handle_events st (map (abs_ev ABS_HAT0Y) [0, - 1, 1, 0]))))"
proof (intro impI conjI)
  assume c: "hat0x st = 0 \<and> hat0y st = 0"
  show x: "snd (handle_events st (map (abs_ev ABS_HAT0X) [0, - 1, 1, 0])) =
     [Write EV_KEY KEY_LEFT 1, report, Write EV_KEY KEY_LEFT 0, report,
      Write EV_KEY KEY_RIGHT 1, report, Write EV_KEY KEY_RIGHT 0, report]"
    using c by (simp only: hat_sequence_x)
  show y: "snd (handle_events st (map (abs_ev ABS_HAT0Y) [0, - 1, 1, 0])) =
     [Write EV_KEY KEY_UP 1, report, Write EV_KEY KEY_UP 0, report,
      Write EV_KEY KEY_DOWN 1, report, Write EV_KEY KEY_DOWN 0, report]"
    using c by (simp only: hat_sequence_y)
  show "list_all (\<lambda>out. \<not> (held out KEY_LEFT \<and> held out KEY_RIGHT))
     (prefixes (snd (handle_events st (map (abs_ev ABS_HAT0X) [0, - 1, 1, 0]))))"
    unfolding x by (simp add: held_def)
  show "list_all (\<lambda>out. \<not> (held out KEY_UP \<and> held out KEY_DOWN))
     (prefixes (snd (handle_events st (map (abs_ev ABS_HAT0Y) [0, - 1, 1, 0]))))"
    unfolding y by (simp add: held_def)
qed

text \<open>The same at the start of a session.\<close>

theorem hat_sequence_at_session_start:
  "snd (handle_events (init_session 0) (map (abs_ev ABS_HAT0X) [0, - 1, 1, 0])) =
     [Write EV_KEY KEY_LEFT 1, report, Write EV_KEY KEY_LEFT 0, report,
      Write EV_KEY KEY_RIGHT 1, report, Write EV_KEY KEY_RIGHT 0, report] \<and>
   \<not> (held [Write EV_KEY KEY_LEFT 1, report, Write EV_KEY KEY_LEFT 0, report,
            Write EV_KEY KEY_RIGHT 1] KEY_LEFT \<and>
      held [Write EV_KEY KEY_LEFT 1, report, Write EV_KEY KEY_LEFT 0, report,
            Write EV_KEY KEY_RIGHT 1] KEY_RIGHT)"
proof -
  have c: "hat0x (init_session 0) = 0 \<and> hat0y (init_session 0) = 0"
    by (simp add: init_session_def)
  have "snd (handle_events (init_session 0) (map (abs_ev ABS_HAT0X) [0, - 1, 1, 0])) =
     [Write EV_KEY KEY_LEFT 1, report, Write EV_KEY KEY_LEFT 0, report,
      Write EV_KEY KEY_RIGHT 1, report, Write EV_KEY KEY_RIGHT 0, report]"
    using hat_sequence_own_reports[of "init_session 0"] c by blast
  moreover have "\<not> (held [Write EV_KEY KEY_LEFT 1, report, Write EV_KEY KEY_LEFT 0, report,
            Write EV_KEY KEY_RIGHT 1] KEY_LEFT \<and>
      held [Write EV_KEY KEY_LEFT 1, report, Write EV_KEY KEY_LEFT 0, report,
            Write EV_KEY KEY_RIGHT 1] KEY_RIGHT)"
    by (simp add: held_def)
  ultimately show ?thesis by blast
qed

text \<open>
  The claim C3 as the specification states it fails at the change from -1 to +1: the
  up and the down are not in one batch with one report after both; a report stands
  between them, two reports in all.
\<close>

theorem hat_direct_change_two_batches:
  "snd (handle_event ((init_session 0)\<lparr>hat0x := - 1\<rparr>) (abs_ev ABS_HAT0X 1)) =
     [Write EV_KEY KEY_LEFT 0, report, Write EV_KEY KEY_RIGHT 1, report] \<and>
   snd (handle_event ((init_session 0)\<lparr>hat0x := - 1\<rparr>) (abs_ev ABS_HAT0X 1)) \<noteq>
     [Write EV_KEY KEY_LEFT 0, Write EV_KEY KEY_RIGHT 1, report] \<and>
   count_list (snd (handle_event ((init_session 0)\<lparr>hat0x := - 1\<rparr>) (abs_ev ABS_HAT0X 1)))
     report = 2"
  by (simp add: handle_event_hat0x hat_event_def hat_key_def init_session_def)

subsection \<open>HysteresisLatch\<close>

lemma trigger_event_cases:
  "trigger_event k z v =
     (if z then (if v < z_up_threshold then (False, [Write EV_KEY k 0, report]) else (True, []))
      else (if z_down_threshold < v then (True, [Write EV_KEY k 1, report]) else (False, [])))"
  by (simp add: trigger_event_def z_up_threshold_def z_down_threshold_def)

lemma trigger_events_released:
  "\<forall>v\<in>set vs. v \<le> z_down_threshold \<Longrightarrow>
   trigger_events k False vs = (replicate (length vs) False, [])"
  by (induction vs) (auto simp: trigger_event_cases)

text \<open>
  C5. A trigger starts released (\<open>lz\<close> and \<open>rz\<close> are false at the start of a
  session) and its events go through \<open>trigger_event\<close> with the key of the trigger.
  Over any sequence of values none of which exceeds the press threshold, the state is
  released after every event and nothing is written. A pressed trigger stays pressed,
  and writes nothing, on every value not below the release threshold, the band up to
  the press threshold included; it is released exactly on a value below the release
  threshold, which is strictly lower than the press threshold; a released one is
  pressed exactly on a value above the press threshold. Every change of state writes
  one key event for the key, with value 1 for pressed and 0 for released, and one
  report after it; without a change nothing is written.
\<close>

theorem trigger_hysteresis:
  "lz (init_session t) = False \<and> rz (init_session t) = False \<and>
   handle_event st (abs_ev ABS_Z v) =
     (st\<lparr>lz := fst (trigger_event KEY_LEFTCTRL (lz st) v)\<rparr>,
      snd (trigger_event KEY_LEFTCTRL (lz st) v)) \<and>
   handle_event st (abs_ev ABS_RZ v) =
     (st\<lparr>rz := fst (trigger_event KEY_LEFTSHIFT (rz st) v)\<rparr>,
      snd (trigger_event KEY_LEFTSHIFT (rz st) v)) \<and>
   ((\<forall>v\<in>set vs. v \<le> z_down_threshold) \<longrightarrow>
      trigger_events k False vs = (replicate (length vs) False, [])) \<and>
   (z_up_threshold \<le> v \<longrightarrow> trigger_event k True v = (True, [])) \<and>
   (fst (trigger_event k True v) = False \<longleftrightarrow> v < z_up_threshold) \<and>
   (fst (trigger_event k False v) = True \<longleftrightarrow> z_down_threshold < v) \<and>
   z_up_threshold < z_down_threshold \<and>
   (fst (trigger_event k z v) \<noteq> z \<longrightarrow>
      snd (trigger_event k z v) =
        [Write EV_KEY k (if fst (trigger_event k z v) then 1 else 0), report]) \<and>
   (fst (trigger_event k z v) = z \<longrightarrow> snd (trigger_event k z v) = [])"
proof -
  have "(\<forall>v\<in>set vs. v \<le> z_down_threshold) \<longrightarrow>
      trigger_events k False vs = (replicate (length vs) False, [])"
    using trigger_events_released[of vs k] by blast
  moreover have "lz (init_session t) = False \<and> rz (init_session t) = False"
    by (simp add: init_session_def)
  moreover have "z_up_threshold < z_down_threshold"
    by (simp add: z_up_threshold_def z_down_threshold_def)
  moreover have "z_up_threshold \<le> v \<longrightarrow> trigger_event k True v = (True, [])"
    by (simp add: trigger_event_cases)
  moreover have "fst (trigger_event k True v) = False \<longleftrightarrow> v < z_up_threshold"
    by (simp add: trigger_event_cases)
  moreover have "fst (trigger_event k False v) = True \<longleftrightarrow> z_down_threshold < v"
    by (simp add: trigger_event_cases)
  moreover have "fst (trigger_event k z v) \<noteq> z \<longrightarrow>
      snd (trigger_event k z v) =
        [Write EV_KEY k (if fst (trigger_event k z v) then 1 else 0), report]"
    by (simp add: trigger_event_cases)
  moreover have "fst (trigger_event k z v) = z \<longrightarrow> snd (trigger_event k z v) = []"
    by (simp add: trigger_event_cases)
  ultimately show ?thesis
    by (simp only: handle_event_abs_z handle_event_abs_rz simp_thms)
qed

text \<open>
  The left trigger over the values 100, 512, 300 stays released; pressed, it stays
  pressed at 256 and at 512; the value 513 presses it and the value 255 releases it.
\<close>

theorem trigger_hysteresis_example:
  "trigger_events KEY_LEFTCTRL False [100, 512, 300] = ([False, False, False], []) \<and>
   trigger_event KEY_LEFTCTRL True 256 = (True, []) \<and>
   trigger_event KEY_LEFTCTRL True 512 = (True, []) \<and>
   trigger_event KEY_LEFTCTRL False 513 = (True, [Write EV_KEY KEY_LEFTCTRL 1, report]) \<and>
   trigger_event KEY_LEFTCTRL True 255 = (False, [Write EV_KEY KEY_LEFTCTRL 0, report])"
proof -
  have a: "trigger_events KEY_LEFTCTRL False [100, 512, 300] = ([False, False, False], [])"
    using trigger_hysteresis[of 0 "init_session 0" 256 "[100, 512, 300]" KEY_LEFTCTRL True]
    by (simp add: z_down_threshold_def)
  have b: "trigger_event KEY_LEFTCTRL True 256 = (True, [])"
    using trigger_hysteresis[of 0 "init_session 0" 256 "[]" KEY_LEFTCTRL True]
    by (simp add: z_up_threshold_def)
  have c: "trigger_event KEY_LEFTCTRL True 512 = (True, [])"
    using trigger_hysteresis[of 0 "init_session 0" 512 "[]" KEY_LEFTCTRL True]
    by (simp add: z_up_threshold_def)
  have d: "trigger_event KEY_LEFTCTRL False 513 = (True, [Write EV_KEY KEY_LEFTCTRL 1, report])"
    using trigger_hysteresis[of 0 "init_session 0" 513 "[]" KEY_LEFTCTRL False]
    by (simp add: z_down_threshold_def prod_eq_iff)
  have e: "trigger_event KEY_LEFTCTRL True 255 = (False, [Write EV_KEY KEY_LEFTCTRL 0, report])"
    using trigger_hysteresis[of 0 "init_session 0" 255 "[]" KEY_LEFTCTRL True]
    by (simp add: z_up_threshold_def prod_eq_iff)
  show ?thesis using a b c d e by simp
qed

subsection \<open>ButtonRouter\<close>

lemma button_writes_two:
  "length (button_writes code v) = 2 \<longleftrightarrow> code = BTN_START \<or> code = BTN_TL"
  by (simp add: button_writes_def)

lemma button_writes_unrouted: "code \<notin> set routed \<Longrightarrow> button_writes code v = []"
  by (simp add: button_writes_def routed_def)

lemma button_writes_routed: "code \<in> set routed \<Longrightarrow> button_writes code v \<noteq> []"
  by (auto simp: button_writes_def routed_def)

lemma button_writes_keys: "a \<in> set (button_writes code v) \<Longrightarrow> \<exists>k. a = Write EV_KEY k v"
  by (auto simp: button_writes_def split: if_splits)

lemma button_writes_no_report: "report \<notin> set (button_writes code v)"
  using button_writes_keys[of report code v] by auto

lemma count_list_absent: "x \<notin> set xs \<Longrightarrow> count_list xs x = 0"
  by (induction xs) auto



section \<open>Properties of the arithmetic\<close>

subsection \<open>Rounding to a double\<close>

lemma rne_zero: "rne 0 = 0"
  by (simp add: rne_def)

lemma rne_minus: "rne (- x) = - rne x"
  by (simp add: rne_def ulp_def sgn_minus)

lemma rne_pos_eq: "0 < x \<Longrightarrow> rne x = of_int (round_half_even (x / ulp x)) * ulp x"
  by (simp add: rne_def)



lemma round_half_even_of_int: "round_half_even (of_int n) = n"
  by (simp add: round_half_even_def)


text \<open>A positive real lies between two consecutive powers of two.\<close>

lemma binade:
  assumes "0 < x"
  shows "2 powr (of_int \<lfloor>log 2 x\<rfloor>) \<le> x" "x < 2 powr (of_int \<lfloor>log 2 x\<rfloor> + 1)"
proof -
  have "(of_int \<lfloor>log 2 x\<rfloor> \<le> log 2 x) = (2 powr (of_int \<lfloor>log 2 x\<rfloor>) \<le> x)"
    using assms by (intro le_log_iff) auto
  then show "2 powr (of_int \<lfloor>log 2 x\<rfloor>) \<le> x" by simp
  have "(log 2 x < of_int \<lfloor>log 2 x\<rfloor> + 1) = (x < 2 powr (of_int \<lfloor>log 2 x\<rfloor> + 1))"
    using assms by (intro log_less_iff) auto
  moreover have "log 2 x < of_int \<lfloor>log 2 x\<rfloor> + 1" by linarith
  ultimately show "x < 2 powr (of_int \<lfloor>log 2 x\<rfloor> + 1)" by simp
qed







text \<open>An integer of at most 53 bits is a double.\<close>

lemma rne_of_int_pos:
  assumes "0 < n" "n < 2 ^ 53"
  shows "rne (of_int n) = of_int n"
proof -
  let ?x = "of_int n :: real"
  let ?e = "\<lfloor>log 2 ?x\<rfloor>"
  have x: "0 < ?x" using assms by simp
  have "2 powr (of_int ?e) \<le> ?x" using binade(1)[OF x] .
  also have "?x < 2 ^ 53" using assms(2) by (metis of_int_less_numeral_power_cancel_iff)
  also have "(2 ^ 53 :: real) = 2 powr 53" by simp
  finally have "(of_int ?e :: real) < 53" by (simp only: powr_less_cancel_iff)
  then have e: "?e \<le> 52" by linarith
  define k where "k = nat (52 - ?e)"
  have k: "(of_int ?e :: real) - 52 = - real k" using e by (simp add: k_def)
  have u: "ulp ?x = 1 / 2 ^ k"
    using x by (simp add: ulp_def k powr_minus powr_realpow inverse_eq_divide)
  have m: "?x / ulp ?x = of_int (n * 2 ^ k)" by (simp add: u)
  have "rne ?x = of_int (round_half_even (?x / ulp ?x)) * ulp ?x" using x by (rule rne_pos_eq)
  also have "\<dots> = of_int (n * 2 ^ k) * ulp ?x" by (simp only: m round_half_even_of_int)
  also have "\<dots> = ?x" by (simp add: u)
  finally show ?thesis .
qed

lemma rne_of_int: "\<bar>n\<bar> < 2 ^ 53 \<Longrightarrow> rne (of_int n) = of_int n"
proof -
  assume b: "\<bar>n\<bar> < 2 ^ 53"
  consider "0 < n" | "n = 0" | "n < 0" by linarith
  then show ?thesis
  proof cases
    case 1
    then show ?thesis using b by (intro rne_of_int_pos) simp_all
  next
    case 2
    then show ?thesis by (simp add: rne_zero)
  next
    case 3
    then have "rne (of_int (- n)) = of_int (- n)" using b by (intro rne_of_int_pos) simp_all
    then show ?thesis by (simp add: rne_minus)
  qed
qed

lemma double_of_int_exact: "\<bar>n\<bar> < 2 ^ 53 \<Longrightarrow> double_of_int n = of_int n"
  by (simp add: double_of_int_def rne_of_int)

subsection \<open>Truncation and division\<close>




lemma trunc_of_int: "trunc (of_int n) = n"
  by (simp add: trunc_def)


lemma tdiv_abs: "\<bar>tdiv a b\<bar> = \<bar>a\<bar> div \<bar>b\<bar>"
proof -
  have "0 \<le> \<bar>a\<bar> div \<bar>b\<bar>" by (simp add: pos_imp_zdiv_nonneg_iff div_int_pos_iff)
  then show ?thesis by (auto simp: tdiv_def)
qed


lemma to_int_id: "- (2 ^ 31) \<le> c \<Longrightarrow> c < 2 ^ 31 \<Longrightarrow> to_int c = c"
  by (simp add: to_int_def)



section \<open>Properties of AxisAccelerator\<close>

lemma factor_Some:
  "factor pw p v = Some a \<longleftrightarrow>
     v \<noteq> - (2 ^ 31) \<and> in_int64 (trunc (scaled pw p v)) \<and> a = trunc (scaled pw p v)"
  by (auto simp: factor_def exponent_def c_abs_def to_int64_def scaled_def)

lemma AxisAccelerator_Some:
  "AxisAccelerator pw p v dt = Some y \<longleftrightarrow>
     (\<exists>a. factor pw p v = Some a \<and> in_int64 (a * dt) \<and>
          in_int64 (tdiv (a * dt) (div2 p) * mul p) \<and>
          y = to_int (tdiv (a * dt) (div2 p) * mul p))"
  by (cases "factor pw p v") (auto simp: AxisAccelerator_def mul_int64_def)


lemma sticks:
  "p = lstick \<or> p = rstick \<Longrightarrow>
   div2 p = 2 ^ 36 \<and> (mul p = 1 \<or> mul p = 2) \<and> sub p = 2 ^ 13 \<and> div1 p = 2 ^ 9"
  by (auto simp: lstick_def rstick_def)

text \<open>
  With the constants of the two sticks the result of the 64-bit computation is below
  \<open>2^28\<close> in magnitude, so the conversion to \<^verbatim>\<open>int\<close> changes nothing and
  \<^verbatim>\<open>abs\<close> and the negation of lines 317 and 318 are defined on it.
\<close>

lemma result_bound:
  assumes "p = lstick \<or> p = rstick" "in_int64 b"
  shows "\<bar>tdiv b (div2 p) * mul p\<bar> \<le> 2 ^ 28"
proof -
  have "\<bar>b\<bar> \<le> 2 ^ 63" using assms(2) by (auto simp: in_int64_def)
  then have "\<bar>b\<bar> div 2 ^ 36 \<le> 2 ^ 63 div (2 ^ 36 :: int)" by (rule zdiv_mono1) simp
  then have "\<bar>b\<bar> div 2 ^ 36 \<le> 2 ^ 27" by simp
  then have t: "\<bar>tdiv b (2 ^ 36)\<bar> \<le> 2 ^ 27" by (simp add: tdiv_abs)
  from sticks[OF assms(1)] show ?thesis using t by (auto simp: abs_mult)
qed

lemma to_int_result:
  assumes "p = lstick \<or> p = rstick" "in_int64 b"
  shows "to_int (tdiv b (div2 p) * mul p) = tdiv b (div2 p) * mul p"
  using result_bound[OF assms] by (intro to_int_id) auto

lemma in_int64_result:
  assumes "p = lstick \<or> p = rstick" "in_int64 b"
  shows "in_int64 (tdiv b (div2 p) * mul p)"
  using result_bound[OF assms] by (auto simp: in_int64_def)

lemma AxisAccelerator_eq:
  assumes "p = lstick \<or> p = rstick" "factor pw p v = Some a" "in_int64 (a * dt)"
  shows "AxisAccelerator pw p v dt = Some (tdiv (a * dt) (div2 p) * mul p)"
  using assms in_int64_result[OF assms(1,3)] to_int_result[OF assms(1,3)]
  by (simp add: AxisAccelerator_Some)

lemma AxisAccelerator_D:
  assumes "p = lstick \<or> p = rstick" "AxisAccelerator pw p v dt = Some y"
  shows "\<exists>a. factor pw p v = Some a \<and> in_int64 (a * dt) \<and> y = tdiv (a * dt) (div2 p) * mul p"
  using assms to_int_result[OF assms(1)] by (auto simp: AxisAccelerator_Some)

lemma AxisAccelerator_range:
  assumes "p = lstick \<or> p = rstick" "AxisAccelerator pw p v dt = Some y"
  shows "\<bar>y\<bar> \<le> 2 ^ 28"
  using AxisAccelerator_D[OF assms] result_bound[OF assms(1)] by auto

text \<open>A stick at rest gives no delta, whatever the interval.\<close>

lemma AxisAccelerator_zero: "AxisAccelerator pw p 0 dt = Some 0"
  by (simp add: AxisAccelerator_def factor_def exponent_def c_abs_def dmul_def
      double_of_int_def rne_zero to_int64_def trunc_def in_int64_def mul_int64_def
      tdiv_def to_int_def)


subsection \<open>Sign\<close>






subsection \<open>Examples with the correctly rounded power\<close>

text \<open>
  For a raw value less than \<^verbatim>\<open>ldiv1\<close> away from \<^verbatim>\<open>lsub\<close> the exponent is
  0, the power is 1 and the factor is the raw value itself.
\<close>

lemma factor_near_threshold:
  assumes p: "p = lstick \<or> p = rstick" and v: "7680 < \<bar>v\<bar>" "\<bar>v\<bar> < 8704"
  shows "factor ideal_pow p v = Some v"
proof -
  have c: "sub p = 2 ^ 13" "div1 p = 2 ^ 9" using sticks[OF p] by simp_all
  have "\<bar>\<bar>v\<bar> - 8192\<bar> < 512" using v by linarith
  then have "\<bar>\<bar>v\<bar> - 8192\<bar> div 512 = 0" by simp
  then have e: "tdiv (\<bar>v\<bar> - sub p) (div1 p) = 0" by (simp add: c tdiv_def)
  have d: "double_of_int v = of_int v" using v by (intro double_of_int_exact) simp
  have "scaled ideal_pow p v = of_int v"
    using v by (simp add: scaled_def e d double_of_int_def rne_zero ideal_pow_def dmul_def rne_of_int)
  moreover have "v \<noteq> - (2 ^ 31)" "in_int64 v" using v by (auto simp: in_int64_def)
  ultimately show ?thesis by (simp add: factor_Some trunc_of_int)
qed




lemma scroll_8192_40ms: "AxisAccelerator ideal_pow rstick 8192 40000000 = Some 8"
  using AxisAccelerator_eq[of rstick ideal_pow 8192 8192 40000000]
    factor_near_threshold[of rstick 8192]
  by (simp add: in_int64_def tdiv_def rstick_def)

lemma scroll_8703_40ms: "AxisAccelerator ideal_pow rstick 8703 40000000 = Some 10"
  using AxisAccelerator_eq[of rstick ideal_pow 8703 8703 40000000]
    factor_near_threshold[of rstick 8703]
  by (simp add: in_int64_def tdiv_def rstick_def)



subsection \<open>Monotonicity\<close>












section \<open>Properties of the session loop\<close>

lemma motion_Some:
  "motion pw st dt = Some (st', out) \<longleftrightarrow>
     (\<exists>x y h w.
        AxisAccelerator pw lstick (lx st) dt = Some x \<and>
        AxisAccelerator pw lstick (ly st) dt = Some y \<and>
        AxisAccelerator pw rstick (rx st) dt = Some h \<and>
        AxisAccelerator pw rstick (ry st) dt = Some w \<and>
        st' = st\<lparr>slx := x, sly := y, srx := h, sry := w\<rparr> \<and>
        out = emit_pointer x y @ emit_scroll h w)"
  by (cases "AxisAccelerator pw lstick (lx st) dt"; cases "AxisAccelerator pw lstick (ly st) dt";
      cases "AxisAccelerator pw rstick (rx st) dt"; cases "AxisAccelerator pw rstick (ry st) dt")
     (auto simp: motion_def)

lemma session_iter_Continue:
  "session_iter pw st w = Continue st' out \<longleftrightarrow>
     0 \<le> poll_rc w \<and> revents1 w = 0 \<and> (revents0 w \<noteq> 0 \<longrightarrow> 0 \<le> next_event_rc w) \<and>
     (\<exists>out2.
        motion pw
          (if revents0 w \<noteq> 0 then fst (handle_event (st\<lparr>last_time := now w\<rparr>) (next_event w))
           else st\<lparr>last_time := now w\<rparr>)
          (now w - last_time st) = Some (st', out2) \<and>
        out =
          (if revents0 w \<noteq> 0 then snd (handle_event (st\<lparr>last_time := now w\<rparr>) (next_event w))
           else []) @ out2)"
  by (auto simp: session_iter_def Let_def split: prod.splits option.splits)

lemma session_iter_Disconnected:
  "session_iter pw st w = Disconnected \<longleftrightarrow>
     0 \<le> poll_rc w \<and> revents1 w = 0 \<and> revents0 w \<noteq> 0 \<and> next_event_rc w = - ENODEV"
  by (auto simp: session_iter_def Let_def split: prod.splits option.splits)

text \<open>The event handlers write key events and reports only.\<close>

lemma hat_event_no_scroll: "filter is_scroll (hat_event n p h v) = []"
  by (simp add: hat_event_def)

lemma trigger_event_no_scroll: "filter is_scroll (snd (trigger_event k z v)) = []"
  by (simp add: trigger_event_cases)

lemma key_event_no_scroll: "filter is_scroll (key_event code v) = []"
  by (simp add: key_event_def button_writes_def)

lemma handle_event_no_scroll: "filter is_scroll (snd (handle_event st ev)) = []"
  by (simp add: handle_event_def Let_def case_prod_beta hat_event_no_scroll
      trigger_event_no_scroll key_event_no_scroll)

lemma emit_pointer_no_scroll: "filter is_scroll (emit_pointer x y) = []"
  by (simp add: emit_pointer_def)

lemma emit_scroll_cases:
  "emit_scroll x y =
     (if \<bar>y\<bar> < \<bar>x\<bar> then [Write EV_REL REL_HWHEEL_HI_RES (- x), report]
      else if y \<noteq> 0 then [Write EV_REL REL_WHEEL_HI_RES y, report]
      else [])"
  by (auto simp: emit_scroll_def)

lemma emit_scroll_filter:
  "filter is_scroll (emit_scroll x y) =
     (if x \<noteq> 0 \<or> y \<noteq> 0
      then [if \<bar>y\<bar> < \<bar>x\<bar> then Write EV_REL REL_HWHEEL_HI_RES (- x)
            else Write EV_REL REL_WHEEL_HI_RES y]
      else [])"
  by (simp add: emit_scroll_def)

text \<open>The stick positions after an input event are those the deltas are computed from.\<close>

lemma session_iter_deltas:
  assumes "session_iter pw st w = Continue st' out"
  shows "AxisAccelerator pw rstick (rx st') (now w - last_time st) = Some (srx st')"
    "AxisAccelerator pw rstick (ry st') (now w - last_time st) = Some (sry st')"
    "filter is_scroll out = filter is_scroll (emit_scroll (srx st') (sry st'))"
  using assms
  by (auto simp: session_iter_Continue motion_Some handle_event_no_scroll emit_pointer_no_scroll)

text \<open>
  C4. In an iteration of the session loop that goes round again, the scroll deltas
  \<open>srx\<close> and \<open>sry\<close> of the new state are the ones recomputed from the right stick
  and the interval. When at least one of them is not zero, exactly one write among all
  the writes of the iteration is for a scroll axis: the horizontal wheel when the
  magnitude of \<open>srx\<close> is strictly greater than that of \<open>sry\<close>, and the vertical
  wheel otherwise, a tie included; nothing is written for the other axis. When both
  are zero no scroll axis is written.
\<close>

theorem scroll_one_axis_per_iteration:
  assumes "session_iter pw st w = Continue st' out"
  shows
    "AxisAccelerator pw rstick (rx st') (now w - last_time st) = Some (srx st') \<and>
     AxisAccelerator pw rstick (ry st') (now w - last_time st) = Some (sry st') \<and>
     (srx st' \<noteq> 0 \<or> sry st' \<noteq> 0 \<longrightarrow>
        filter is_scroll out =
          [if \<bar>sry st'\<bar> < \<bar>srx st'\<bar> then Write EV_REL REL_HWHEEL_HI_RES (- srx st')
           else Write EV_REL REL_WHEEL_HI_RES (sry st')]) \<and>
     (srx st' = 0 \<and> sry st' = 0 \<longrightarrow> filter is_scroll out = [])"
  using session_iter_deltas[OF assms] by (simp add: emit_scroll_filter)

text \<open>
  The right stick at 8192 to the right and 8703 down, 40 ms after the last iteration
  and with no input event: the deltas are 8 and 10 and only the vertical wheel is
  written.
\<close>

lemma scrolling_iteration:
  "session_iter ideal_pow scrolling timeout_40ms =
     Continue (scrolling\<lparr>last_time := 40000000, slx := 0, sly := 0, srx := 8, sry := 10\<rparr>)
       [Write EV_REL REL_WHEEL_HI_RES 10, report]"
  by (simp add: session_iter_def timeout_40ms_def scrolling_def init_session_def motion_def
      AxisAccelerator_zero scroll_8192_40ms scroll_8703_40ms emit_pointer_def emit_scroll_def)

theorem scroll_one_axis_example:
  "session_iter ideal_pow scrolling timeout_40ms =
     Continue (scrolling\<lparr>last_time := 40000000, slx := 0, sly := 0, srx := 8, sry := 10\<rparr>)
       [Write EV_REL REL_WHEEL_HI_RES 10, report] \<and>
   filter is_scroll [Write EV_REL REL_WHEEL_HI_RES 10, report] = [Write EV_REL REL_WHEEL_HI_RES 10]"
  using scroll_one_axis_per_iteration[OF scrolling_iteration] scrolling_iteration
  by simp

text \<open>
  C10. Where the horizontal delta \<open>x\<close> is strictly the greater in magnitude, the
  write for the horizontal wheel carries \<open>- x\<close>; where it is not and a delta is not
  zero, the write for the vertical wheel carries the vertical delta \<open>y\<close> itself.
  These are the writes of the session loop for its recomputed deltas.
\<close>

theorem scroll_horizontal_negated:
  "(\<bar>y\<bar> < \<bar>x\<bar> \<longrightarrow> emit_scroll x y = [Write EV_REL REL_HWHEEL_HI_RES (- x), report]) \<and>
   (\<not> \<bar>y\<bar> < \<bar>x\<bar> \<and> (x \<noteq> 0 \<or> y \<noteq> 0) \<longrightarrow>
      emit_scroll x y = [Write EV_REL REL_WHEEL_HI_RES y, report]) \<and>
   (motion pw st dt = Some (st', out) \<longrightarrow>
      out = emit_pointer (slx st') (sly st') @ emit_scroll (srx st') (sry st'))"
  by (auto simp: emit_scroll_cases motion_Some)

text \<open>The deltas 10 and 8, and the deltas 8 and 10.\<close>

theorem scroll_horizontal_negated_example:
  "emit_scroll 10 8 = [Write EV_REL REL_HWHEEL_HI_RES (- 10), report] \<and>
   emit_scroll 8 10 = [Write EV_REL REL_WHEEL_HI_RES 10, report]"
proof -
  have "emit_scroll 10 8 = [Write EV_REL REL_HWHEEL_HI_RES (- 10), report]"
    using scroll_horizontal_negated[of 8 10] by simp
  moreover have "emit_scroll 8 10 = [Write EV_REL REL_WHEEL_HI_RES 10, report]"
    using scroll_horizontal_negated[of 10 8] by simp
  ultimately show ?thesis by simp
qed

subsection \<open>Key events in the session loop\<close>

lemma session_iter_key:
  assumes "0 \<le> poll_rc w" "revents1 w = 0" "revents0 w \<noteq> 0" "0 \<le> next_event_rc w"
    "ev_type (next_event w) = EV_KEY"
  shows "session_iter pw st w =
     (case session_iter pw st (w\<lparr>revents0 := 0\<rparr>) of
        Continue st' out \<Rightarrow>
          Continue st' (key_event (ev_code (next_event w)) (ev_value (next_event w)) @ out)
      | r \<Rightarrow> r)"
  using assms
  by (simp add: session_iter_def Let_def handle_event_key split: option.splits prod.splits)

text \<open>
  C9. An input event of type \<^verbatim>\<open>EV_KEY\<close> leaves the session state as it is and
  writes the key events of its button, none of which is a report, and then one report:
  exactly one report in all. For a button without a case in the \<^verbatim>\<open>switch\<close> the
  report is all that is written. In the session loop, an iteration that reads such an
  event writes these writes in front of what the same iteration writes without an
  input event, and it ends the same way.
\<close>

theorem key_event_one_report:
  assumes "ev_type ev = EV_KEY"
  shows
    "fst (handle_event st ev) = st \<and>
     snd (handle_event st ev) = button_writes (ev_code ev) (ev_value ev) @ [report] \<and>
     report \<notin> set (button_writes (ev_code ev) (ev_value ev)) \<and>
     count_list (snd (handle_event st ev)) report = 1 \<and>
     (ev_code ev \<notin> set routed \<longrightarrow> snd (handle_event st ev) = [report]) \<and>
     (0 \<le> poll_rc w \<and> revents1 w = 0 \<and> revents0 w \<noteq> 0 \<and> 0 \<le> next_event_rc w \<and>
      next_event w = ev \<longrightarrow>
        session_iter pw st w =
          (case session_iter pw st (w\<lparr>revents0 := 0\<rparr>) of
             Continue st' out \<Rightarrow> Continue st' (snd (handle_event st ev) @ out)
           | r \<Rightarrow> r))"
proof -
  have h: "handle_event st ev = (st, button_writes (ev_code ev) (ev_value ev) @ [report])"
    using assms by (simp add: handle_event_key key_event_def)
  have n: "report \<notin> set (button_writes (ev_code ev) (ev_value ev))"
    by (rule button_writes_no_report)
  have c: "count_list (snd (handle_event st ev)) report = 1"
    using n by (simp add: h count_list_absent)
  have u: "ev_code ev \<notin> set routed \<longrightarrow> snd (handle_event st ev) = [report]"
    by (simp add: h button_writes_unrouted)
  have s: "0 \<le> poll_rc w \<and> revents1 w = 0 \<and> revents0 w \<noteq> 0 \<and> 0 \<le> next_event_rc w \<and>
      next_event w = ev \<longrightarrow>
        session_iter pw st w =
          (case session_iter pw st (w\<lparr>revents0 := 0\<rparr>) of
             Continue st' out \<Rightarrow> Continue st' (snd (handle_event st ev) @ out)
           | r \<Rightarrow> r)"
  proof (intro impI)
    assume a: "0 \<le> poll_rc w \<and> revents1 w = 0 \<and> revents0 w \<noteq> 0 \<and> 0 \<le> next_event_rc w \<and>
      next_event w = ev"
    have k: "snd (handle_event st ev) = key_event (ev_code ev) (ev_value ev)"
      by (simp add: h key_event_def)
    have e: "next_event w = ev" using a by simp
    have "session_iter pw st w =
        (case session_iter pw st (w\<lparr>revents0 := 0\<rparr>) of
           Continue st' out \<Rightarrow>
             Continue st' (key_event (ev_code (next_event w)) (ev_value (next_event w)) @ out)
         | r \<Rightarrow> r)"
      using session_iter_key[of w pw st] a assms by simp
    then show "session_iter pw st w =
        (case session_iter pw st (w\<lparr>revents0 := 0\<rparr>) of
           Continue st' out \<Rightarrow> Continue st' (snd (handle_event st ev) @ out)
         | r \<Rightarrow> r)"
      unfolding k e .
  qed
  show ?thesis using h n c u s by simp
qed

text \<open>
  A press of the button with code 309 (\<^verbatim>\<open>BTN_Z\<close>), which the \<^verbatim>\<open>switch\<close> does
  not name, writes one report and nothing else.
\<close>

theorem key_event_unrouted_example:
  "handle_event (init_session 0) (key_ev 309 1) = (init_session 0, [report])"
proof -
  have t: "ev_type (key_ev 309 1) = EV_KEY" by (simp add: key_ev_def)
  have "ev_code (key_ev 309 1) \<notin> set routed" by (simp add: key_ev_def routed_def)
  then have "fst (handle_event (init_session 0) (key_ev 309 1)) = init_session 0 \<and>
      snd (handle_event (init_session 0) (key_ev 309 1)) = [report]"
    using key_event_one_report[OF t, where st = "init_session 0" and w = timeout_40ms
        and pw = ideal_pow]
    by blast
  then show ?thesis by (simp add: prod_eq_iff)
qed

section \<open>Properties of the outer loop\<close>

lemma orch_step_SEARCHING:
  "fst (orch_step pw s w) = SEARCHING \<longleftrightarrow> s = DRAINING \<and> read_rc w < 0 \<and> read_errno w = EAGAIN"
  by (cases s) (auto simp: orch_step_def split: prod.splits option.splits outcome.splits)

lemma orch_step_DRAINING:
  "fst (orch_step pw s w) = DRAINING \<longleftrightarrow>
     s = WAIT_HOTPLUG \<and> 0 \<le> poll_rc w \<and> revents1 w = 0 \<and> revents0 w \<noteq> 0 \<or>
     s = DRAINING \<and> 0 \<le> read_rc w"
  by (cases s) (auto simp: orch_step_def split: prod.splits option.splits outcome.splits)

text \<open>
  C1, as amended. A session ends as disconnected exactly when \<^verbatim>\<open>poll\<close> succeeds,
  no signal is pending, the device is ready and reading it returns \<^verbatim>\<open>-ENODEV\<close>.
  The program then frees the device and closes its descriptor, and the very next place
  is the wait for a hotplug notification, not the search. From any place, the search
  is entered only from the draining of the inotify descriptor, when a read reports
  \<^verbatim>\<open>EAGAIN\<close>, and the draining only from the hotplug wait, when \<^verbatim>\<open>poll\<close>
  reports the inotify descriptor ready and no signal.
\<close>

theorem disconnect_then_wait_hotplug:
  "(session_iter pw st w = Disconnected \<longleftrightarrow>
      0 \<le> poll_rc w \<and> revents1 w = 0 \<and> revents0 w \<noteq> 0 \<and> next_event_rc w = - ENODEV) \<and>
   (session_iter pw st w = Disconnected \<longrightarrow>
      orch_step pw (ACTIVE i st) w = (WAIT_HOTPLUG, [Free i, Close i])) \<and>
   (fst (orch_step pw s w') = SEARCHING \<longleftrightarrow>
      s = DRAINING \<and> read_rc w' < 0 \<and> read_errno w' = EAGAIN) \<and>
   (fst (orch_step pw s w') = DRAINING \<longleftrightarrow>
      s = WAIT_HOTPLUG \<and> 0 \<le> poll_rc w' \<and> revents1 w' = 0 \<and> revents0 w' \<noteq> 0 \<or>
      s = DRAINING \<and> 0 \<le> read_rc w')"
proof (intro conjI impI)
  show "session_iter pw st w = Disconnected \<longleftrightarrow>
      0 \<le> poll_rc w \<and> revents1 w = 0 \<and> revents0 w \<noteq> 0 \<and> next_event_rc w = - ENODEV"
    by (rule session_iter_Disconnected)
  show "orch_step pw (ACTIVE i st) w = (WAIT_HOTPLUG, [Free i, Close i])"
    if "session_iter pw st w = Disconnected"
    using that by (simp add: orch_step_def)
  show "fst (orch_step pw s w') = SEARCHING \<longleftrightarrow>
      s = DRAINING \<and> read_rc w' < 0 \<and> read_errno w' = EAGAIN"
    by (rule orch_step_SEARCHING)
  show "fst (orch_step pw s w') = DRAINING \<longleftrightarrow>
      s = WAIT_HOTPLUG \<and> 0 \<le> poll_rc w' \<and> revents1 w' = 0 \<and> revents0 w' \<noteq> 0 \<or>
      s = DRAINING \<and> 0 \<le> read_rc w'"
    by (rule orch_step_DRAINING)
qed

text \<open>The gamepad \<^verbatim>\<open>event3\<close> is unplugged at the start of its session.\<close>

theorem disconnect_then_wait_hotplug_example:
  "session_iter ideal_pow (init_session 0) unplugged = Disconnected \<and>
   orch_step ideal_pow (ACTIVE 3 (init_session 0)) unplugged = (WAIT_HOTPLUG, [Free 3, Close 3])"
proof -
  have "0 \<le> poll_rc unplugged \<and> revents1 unplugged = 0 \<and> revents0 unplugged \<noteq> 0 \<and>
      next_event_rc unplugged = - ENODEV"
    by (simp add: unplugged_def timeout_40ms_def)
  then show ?thesis
    using disconnect_then_wait_hotplug[of ideal_pow "init_session 0" unplugged 3] by blast
qed

text \<open>
  The claim C1 as the specification states it fails there: the place after the
  disconnection is the hotplug wait and not the search, and when a signal arrives next
  the program ends without having searched again.
\<close>

theorem disconnect_does_not_search:
  "fst (orch_step ideal_pow (ACTIVE 3 (init_session 0)) unplugged) \<noteq> SEARCHING \<and>
   orch_run ideal_pow (ACTIVE 3 (init_session 0)) [unplugged, interrupted] =
     ([WAIT_HOTPLUG, TERMINATED], [Free 3, Close 3, CloseInotify, DestroyUinput])"
  by (simp add: orch_step_def session_iter_def unplugged_def interrupted_def timeout_40ms_def)

section \<open>Further properties\<close>

text \<open>
  A stick at rest gives the delta 0 for every interval, for any stick constants and
  whatever \<^verbatim>\<open>pow\<close> returns.
\<close>

theorem stick_at_rest_no_delta: "AxisAccelerator pw p 0 dt = Some 0"
  by (rule AxisAccelerator_zero)

lemma find_gamepad_result:
  "find_gamepad ns = (acts, Some i) \<Longrightarrow> i < 32 \<and> qualifies (ns i)"
  using find_gamepad_Some_iff[of ns i] by simp

lemma five_files_scan:
  "find_gamepad five_files =
     ([Open 0, Free 0, Close 0, Open 1, Close 1, Open 2, Free 2, Close 2, Open 3], Some 3)"
proof -
  have "[0..<32] = 0 # 1 # 2 # 3 # [4..<32]" by (simp add: upt_conv_Cons)
  then show ?thesis
    by (simp add: find_gamepad_def five_files_def mouse_passes gamepad_qualifies)
qed

text \<open>
  A session is only ever started on a device that \<^verbatim>\<open>find_gamepad\<close> accepted:
  when the search leads to a session on device \<open>i\<close>, that device declares
  \<^verbatim>\<open>EV_ABS\<close>, the four axis codes and \<^verbatim>\<open>BTN_A\<close>, and the session starts
  from the initial state with the current time.
\<close>

theorem session_device_is_gamepad:
  "orch_step pw SEARCHING w = (ACTIVE i st, acts) \<longrightarrow>
     i < 32 \<and> (\<exists>dev. devices w i = Device dev \<and> is_gamepad dev) \<and> st = init_session (now w)"
proof
  assume a: "orch_step pw SEARCHING w = (ACTIVE i st, acts)"
  then obtain acts' where f: "find_gamepad (devices w) = (acts', Some i)"
    and s: "st = init_session (now w)"
    by (auto simp: orch_step_def split: prod.splits option.splits)
  from find_gamepad_result[OF f] have "i < 32" "qualifies (devices w i)" by simp_all
  then show "i < 32 \<and> (\<exists>dev. devices w i = Device dev \<and> is_gamepad dev) \<and>
      st = init_session (now w)"
    using s by (cases "devices w i") auto
qed

text \<open>The search among the five device files starts a session on \<^verbatim>\<open>event3\<close>.\<close>

theorem session_device_is_gamepad_example:
  "orch_step ideal_pow SEARCHING timeout_40ms =
     (ACTIVE 3 (init_session 40000000),
      [Open 0, Free 0, Close 0, Open 1, Close 1, Open 2, Free 2, Close 2, Open 3]) \<and>
   (\<exists>dev. five_files 3 = Device dev \<and> is_gamepad dev)"
proof -
  have o: "orch_step ideal_pow SEARCHING timeout_40ms =
     (ACTIVE 3 (init_session 40000000),
      [Open 0, Free 0, Close 0, Open 1, Close 1, Open 2, Free 2, Close 2, Open 3])"
    by (simp add: orch_step_def timeout_40ms_def five_files_scan)
  then have "\<exists>dev. devices timeout_40ms 3 = Device dev \<and> is_gamepad dev"
    using session_device_is_gamepad[of ideal_pow timeout_40ms 3] by blast
  then show ?thesis using o by (simp add: timeout_40ms_def)
qed

subsection \<open>The virtual device is released once\<close>

lemma loop_no_destroy: "DestroyUinput \<notin> set (fst (find_gamepad_loop ns js))"
  by (induction js) (auto split: candidate.splits prod.splits)

lemma find_gamepad_no_destroy: "DestroyUinput \<notin> set (fst (find_gamepad ns))"
  by (simp add: find_gamepad_def loop_no_destroy)

lemma handle_event_no_destroy: "DestroyUinput \<notin> set (snd (handle_event st ev))"
  by (simp add: handle_event_def Let_def case_prod_beta hat_event_def trigger_event_cases
      key_event_def button_writes_def)

lemma emit_pointer_no_destroy: "DestroyUinput \<notin> set (emit_pointer x y)"
  by (simp add: emit_pointer_def)

lemma emit_scroll_no_destroy: "DestroyUinput \<notin> set (emit_scroll x y)"
  by (simp add: emit_scroll_cases)

lemma session_iter_no_destroy:
  assumes "session_iter pw st w = Continue st' out"
  shows "DestroyUinput \<notin> set out"
proof -
  define pre where "pre =
    (if revents0 w \<noteq> 0 then snd (handle_event (st\<lparr>last_time := now w\<rparr>) (next_event w))
     else [])"
  have p: "DestroyUinput \<notin> set pre" by (simp add: pre_def handle_event_no_destroy)
  from assms obtain st1 out2 where
    m: "motion pw st1 (now w - last_time st) = Some (st', out2)" and o: "out = pre @ out2"
    unfolding session_iter_Continue pre_def by blast
  from m obtain x y h v where "out2 = emit_pointer x y @ emit_scroll h v"
    unfolding motion_Some by blast
  then show ?thesis
    using p o emit_pointer_no_destroy[of x y] emit_scroll_no_destroy[of h v] by simp
qed

lemma orch_step_destroy:
  "count_list (snd (orch_step pw s w)) DestroyUinput =
     (if s \<noteq> TERMINATED \<and> fst (orch_step pw s w) = TERMINATED then 1 else 0)"
proof (cases s)
  case SEARCHING
  then show ?thesis
    using find_gamepad_no_destroy[of "devices w"]
    by (auto simp: orch_step_def count_list_absent split: prod.splits option.splits)
next
  case (ACTIVE i st)
  then show ?thesis
    using session_iter_no_destroy[of pw st w]
    by (cases "session_iter pw st w") (auto simp: orch_step_def count_list_absent)
qed (auto simp: orch_step_def)

text \<open>
  A pending signal ends the program at the next \<^verbatim>\<open>poll\<close>, from a session and
  from the hotplug wait alike, releasing the inotify descriptor and the virtual device
  last; the terminated program does nothing more. Over any run from any place, the
  virtual device is destroyed exactly once when the run reaches the end of the program
  and never otherwise.
\<close>

theorem termination_releases_uinput_once:
  "(0 \<le> poll_rc w \<and> revents1 w \<noteq> 0 \<longrightarrow>
      orch_step pw (ACTIVE i st) w =
        (TERMINATED, [Free i, Close i, CloseInotify, DestroyUinput]) \<and>
      orch_step pw WAIT_HOTPLUG w = (TERMINATED, [CloseInotify, DestroyUinput])) \<and>
   orch_step pw TERMINATED w = (TERMINATED, []) \<and>
   count_list (snd (orch_run pw s ws)) DestroyUinput =
     (if s \<noteq> TERMINATED \<and> TERMINATED \<in> set (fst (orch_run pw s ws)) then 1 else 0)"
proof (intro conjI impI)
  assume "0 \<le> poll_rc w \<and> revents1 w \<noteq> 0"
  then show "orch_step pw (ACTIVE i st) w =
      (TERMINATED, [Free i, Close i, CloseInotify, DestroyUinput])"
    and "orch_step pw WAIT_HOTPLUG w = (TERMINATED, [CloseInotify, DestroyUinput])"
    by (simp_all add: orch_step_def session_iter_def)
next
  show "orch_step pw TERMINATED w = (TERMINATED, [])" by (simp add: orch_step_def)
next
  show "count_list (snd (orch_run pw s ws)) DestroyUinput =
      (if s \<noteq> TERMINATED \<and> TERMINATED \<in> set (fst (orch_run pw s ws)) then 1 else 0)"
  proof (induction ws arbitrary: s)
    case Nil
    then show ?case by simp
  next
    case (Cons w ws)
    obtain s' out where st: "orch_step pw s w = (s', out)" by (cases "orch_step pw s w")
    obtain ss outs where r: "orch_run pw s' ws = (ss, outs)" by (cases "orch_run pw s' ws")
    have c: "count_list out DestroyUinput =
        (if s \<noteq> TERMINATED \<and> s' = TERMINATED then 1 else 0)"
      using orch_step_destroy[of pw s w] st by simp
    have i: "count_list outs DestroyUinput =
        (if s' \<noteq> TERMINATED \<and> TERMINATED \<in> set ss then 1 else 0)"
      using Cons.IH[of s'] r by simp
    have t: "s = TERMINATED \<Longrightarrow> s' = TERMINATED" using st by (auto simp: orch_step_def)
    show ?case using c i t by (auto simp: st r)
  qed
qed

text \<open>
  A search that finds the gamepad, a session ended by a signal, and two more steps:
  the virtual device is destroyed once.
\<close>

theorem termination_releases_uinput_once_example:
  "fst (orch_run ideal_pow SEARCHING [timeout_40ms, interrupted, interrupted, timeout_40ms]) =
     [ACTIVE 3 (init_session 40000000), TERMINATED, TERMINATED, TERMINATED] \<and>
   count_list
     (snd (orch_run ideal_pow SEARCHING [timeout_40ms, interrupted, interrupted, timeout_40ms]))
     DestroyUinput = 1"
proof -
  have f: "fst (orch_run ideal_pow SEARCHING
        [timeout_40ms, interrupted, interrupted, timeout_40ms]) =
      [ACTIVE 3 (init_session 40000000), TERMINATED, TERMINATED, TERMINATED]"
    by (simp add: orch_step_def session_iter_def interrupted_def timeout_40ms_def
        five_files_scan)
  then show ?thesis
    using termination_releases_uinput_once[where pw = ideal_pow and s = SEARCHING
        and ws = "[timeout_40ms, interrupted, interrupted, timeout_40ms]"]
    by simp
qed

end
